theory Spec2Isabelle
  imports Complex_Main "HOL-Library.Sublist"
begin

section \<open>The battery module of src/modules/battery.cpp\<close>

text \<open>
  The module keeps a charge state and a percentage, three label templates and their
  tokenized copies. \<open>on_event\<close> samples the adapter-status and the battery-capacity files,
  \<open>get_format\<close> selects the output format, and \<open>animation_thread_runner\<close> is the
  body of the background thread that asks for a redraw while the battery is charging.

  Numbers: the C++ \<open>int\<close>s of the module (percentage, \<open>full_at\<close>, the retry counter) are
  \<open>int\<close>; the only place where a value could leave the 32 bits is the conversion of
  line 117, which is written out. A floating-point value is a rational number, an
  infinity or NaN; the rounding of a value to the binary formats (of what
  \<open>std::atof\<close> reads to \<open>double\<close>, and of that to \<open>float\<close>) is not modelled, and the
  function that reads the capacity is a parameter of \<open>on_event\<close>, so that what is proved
  of \<open>on_event\<close> holds of every such function, rounding or not.
\<close>

subsection \<open>Data model\<close>

text \<open>
  Modelled from the spec: the constants \<open>STATE_UNKNOWN\<close>, \<open>STATE_CHARGING\<close>,
  \<open>STATE_DISCHARGING\<close> and \<open>STATE_FULL\<close> are declared in modules/battery.hpp;
  the spec gives them as a closed enumeration of four distinct values.
\<close>

datatype charge_state = STATE_UNKNOWN | STATE_CHARGING | STATE_DISCHARGING | STATE_FULL

text \<open>
  Modelled from the spec: the format names \<open>FORMAT_FULL\<close>, \<open>FORMAT_CHARGING\<close> and
  \<open>FORMAT_DISCHARGING\<close> of modules/battery.hpp, three distinct names.
\<close>

datatype format = FORMAT_CHARGING | FORMAT_DISCHARGING | FORMAT_FULL

text \<open>
  Modelled from the spec: \<open>drawtypes::Label\<close>, a text pattern that may hold the
  placeholder for the percentage. The module reads and writes its text only.
\<close>

record label =
  label_text :: string

text \<open>
  Modelled from the spec: \<open>drawtypes::Animation\<close>, of which the module reads
  \<open>get_framerate()\<close> only.
\<close>

record animation =
  framerate :: int

text \<open>
  The members of \<open>BatteryModule\<close> that \<open>on_event\<close>, \<open>get_format\<close> and the constructor
  touch, and the animation that the background thread reads. A \<open>std::unique_ptr\<close>
  that may be null is an \<open>option\<close>. The two paths are the path templates with the
  battery and adapter names already substituted; the two logs collect what
  \<open>log_error\<close> and \<open>log_trace\<close> were given.
\<close>

record battery_module =
  path_capacity :: string
  path_status :: string
  full_at :: int
  state :: charge_state
  percentage :: int
  animation_charging :: "animation option"
  label_charging :: "label option"
  label_discharging :: "label option"
  label_full :: "label option"
  label_charging_tokenized :: "label option"
  label_discharging_tokenized :: "label option"
  label_full_tokenized :: "label option"
  error_log :: "string list"
  trace_log :: "string list"

datatype error = NullDereference

subsection \<open>Library functions\<close>

text \<open>
  A value of type \<open>double\<close> or \<open>float\<close>. A comparison with NaN is false.
\<close>

datatype fp = Finite rat | PInf | MInf | NaN

definition fp_less :: "fp \<Rightarrow> fp \<Rightarrow> bool" where
  "fp_less a b =
     (case (a, b) of
        (Finite x, Finite y) \<Rightarrow> x < y
      | (Finite x, PInf) \<Rightarrow> True
      | (MInf, Finite y) \<Rightarrow> True
      | (MInf, PInf) \<Rightarrow> True
      | _ \<Rightarrow> False)"

definition fp_le :: "fp \<Rightarrow> fp \<Rightarrow> bool" where
  "fp_le a b = (fp_less a b \<or> (a = b \<and> a \<noteq> NaN))"

definition fp_neg :: "fp \<Rightarrow> fp" where
  "fp_neg a =
     (case a of Finite x \<Rightarrow> Finite (- x) | PInf \<Rightarrow> MInf | MInf \<Rightarrow> PInf | NaN \<Rightarrow> NaN)"

text \<open>
  Modelled from the spec: \<open>math::cap\<close> of utils/math.hpp, the clamp of a value into
  \<open>[min_value, max_value]\<close> by two comparisons. NaN is neither below the minimum nor
  above the maximum, and comes back as it is.
\<close>

definition cap :: "fp \<Rightarrow> fp \<Rightarrow> fp \<Rightarrow> fp" where
  "cap value min_value max_value =
     (if fp_less value min_value then min_value
      else if fp_less max_value value then max_value
      else value)"

text \<open>
  The conversion of a floating-point value to \<open>int\<close> drops the fractional part. Where
  the result does not fit the 32 bits, and for the infinities and NaN, C++ leaves the
  conversion undefined; the conversion instruction of x86-64 then stores the most
  negative \<open>int\<close>, and that is the value taken here.
\<close>

definition INT_MIN :: int where
  "INT_MIN = - 2147483648"

definition INT_MAX :: int where
  "INT_MAX = 2147483647"

definition toward_zero :: "rat \<Rightarrow> int" where
  "toward_zero x = (if 0 \<le> x then \<lfloor>x\<rfloor> else \<lceil>x\<rceil>)"

definition float_to_int :: "fp \<Rightarrow> int" where
  "float_to_int v =
     (case v of
        Finite x \<Rightarrow>
          if INT_MIN \<le> toward_zero x \<and> toward_zero x \<le> INT_MAX then toward_zero x
          else INT_MIN
      | PInf \<Rightarrow> INT_MIN
      | MInf \<Rightarrow> INT_MIN
      | NaN \<Rightarrow> INT_MIN)"

text \<open>\<open>std::to_string\<close> on an \<open>int\<close>: the decimal digits, with a minus sign when negative.\<close>

definition digit_char :: "nat \<Rightarrow> char" where
  "digit_char d = char_of (48 + d)"

function string_of_nat :: "nat \<Rightarrow> string" where
  "string_of_nat n =
     (if n < 10 then [digit_char n]
      else string_of_nat (n div 10) @ [digit_char (n mod 10)])"
  by pat_completeness auto
termination
  by (relation "measure id") auto

definition to_string :: "int \<Rightarrow> string" where
  "to_string i =
     (if i < 0 then CHR ''-'' # string_of_nat (nat (- i)) else string_of_nat (nat i))"

text \<open>
  Modelled from the spec: \<open>Label::clone\<close> of drawtypes/label.hpp gives a fresh copy of
  a label.
\<close>

definition clone :: "label \<Rightarrow> label" where
  "clone l = l"

text \<open>
  Modelled from the spec: \<open>string::replace_all\<close> of utils/string.hpp puts the
  replacement in the place of every occurrence of the token, scanning from the left.
\<close>

function replace_all :: "string \<Rightarrow> string \<Rightarrow> string \<Rightarrow> string" where
  "replace_all [] token replacement = []"
| "replace_all (c # cs) token replacement =
     (if token \<noteq> [] \<and> prefix token (c # cs)
      then replacement @ replace_all (drop (length token) (c # cs)) token replacement
      else c # replace_all cs token replacement)"
  by pat_completeness auto
termination
  by (relation "measure (\<lambda>(s, token, replacement). length s)") auto

text \<open>
  Modelled from the spec: \<open>Label::replace_token\<close> replaces the token in the text of
  the label.
\<close>

definition replace_token :: "string \<Rightarrow> string \<Rightarrow> label \<Rightarrow> label" where
  "replace_token token replacement l =
     l\<lparr>label_text := replace_all (label_text l) token replacement\<rparr>"

text \<open>
  \<open>std::atof\<close> is a parameter of the model: a function from the file content to the
  value it parses. \<open>std_atof\<close> is that function on the syntax of the C locale, with the
  value that the text denotes, not rounded: blanks, a sign, then \<open>inf\<close> or
  \<open>infinity\<close>, or \<open>nan\<close>, in either case of the letters, or a hexadecimal number
  after \<open>0x\<close> with a binary exponent after \<open>p\<close>, or a decimal number with a decimal
  exponent after \<open>e\<close>. A number needs one digit at least, an exponent too; text that
  does not start with a number gives 0.
\<close>

definition is_digit :: "char \<Rightarrow> bool" where
  "is_digit c = (48 \<le> (of_char c :: nat) \<and> (of_char c :: nat) \<le> 57)"

definition digit_val :: "char \<Rightarrow> nat" where
  "digit_val c = of_char c - 48"

definition is_space :: "char \<Rightarrow> bool" where
  "is_space c = (c = CHR '' '' \<or> (9 \<le> (of_char c :: nat) \<and> (of_char c :: nat) \<le> 13))"

definition to_lower :: "char \<Rightarrow> char" where
  "to_lower c =
     (if 65 \<le> (of_char c :: nat) \<and> (of_char c :: nat) \<le> 90
      then char_of ((of_char c :: nat) + 32) else c)"

definition is_xdigit :: "char \<Rightarrow> bool" where
  "is_xdigit c =
     (is_digit c \<or>
      (97 \<le> (of_char (to_lower c) :: nat) \<and> (of_char (to_lower c) :: nat) \<le> 102))"

definition xdigit_val :: "char \<Rightarrow> nat" where
  "xdigit_val c = (if is_digit c then digit_val c else of_char (to_lower c) - 87)"

definition starts_with :: "string \<Rightarrow> string \<Rightarrow> bool" where
  "starts_with word s = prefix word (map to_lower s)"

definition digits_value :: "nat \<Rightarrow> (char \<Rightarrow> nat) \<Rightarrow> string \<Rightarrow> int" where
  "digits_value base val ds = foldl (\<lambda>acc c. int base * acc + int (val c)) 0 ds"

text \<open>The digits before and after the point: their value and the text left.\<close>

definition mantissa ::
  "nat \<Rightarrow> (char \<Rightarrow> bool) \<Rightarrow> (char \<Rightarrow> nat) \<Rightarrow> string \<Rightarrow> (rat \<times> string) option" where
  "mantissa base is_dig val s =
     (let ds1 = takeWhile is_dig s;
          r1 = dropWhile is_dig s;
          ds2 = (case r1 of [] \<Rightarrow> []
                 | c # t \<Rightarrow> if c = CHR ''.'' then takeWhile is_dig t else []);
          r2 = (case r1 of [] \<Rightarrow> []
                | c # t \<Rightarrow> if c = CHR ''.'' then dropWhile is_dig t else r1)
      in if ds1 = [] \<and> ds2 = [] then None
         else Some (of_int (digits_value base val (ds1 @ ds2)) / of_int (int base ^ length ds2),
                    r2))"

text \<open>The exponent after its marker, 0 where there is none.\<close>

definition exponent :: "char \<Rightarrow> string \<Rightarrow> int" where
  "exponent marker s =
     (case s of
        [] \<Rightarrow> 0
      | c # t \<Rightarrow>
          if to_lower c \<noteq> marker then 0
          else
            (let negative = (case t of [] \<Rightarrow> False | d # u \<Rightarrow> d = CHR ''-'');
                 u = (case t of [] \<Rightarrow> []
                      | d # u \<Rightarrow> if d = CHR ''-'' \<or> d = CHR ''+'' then u else t);
                 ds = takeWhile is_digit u
             in if ds = [] then 0
                else if negative then - digits_value 10 digit_val ds
                else digits_value 10 digit_val ds))"

definition scaled :: "rat \<Rightarrow> nat \<Rightarrow> int \<Rightarrow> rat" where
  "scaled m base e =
     (if 0 \<le> e then m * of_int (int base) ^ nat e else m / of_int (int base) ^ nat (- e))"

definition unsigned_number :: "string \<Rightarrow> fp" where
  "unsigned_number s =
     (if starts_with ''inf'' s then PInf
      else if starts_with ''nan'' s then NaN
      else if starts_with ''0x'' s \<and> mantissa 16 is_xdigit xdigit_val (drop 2 s) \<noteq> None then
        (case mantissa 16 is_xdigit xdigit_val (drop 2 s) of
           None \<Rightarrow> Finite 0
         | Some (m, r) \<Rightarrow> Finite (scaled m 2 (exponent CHR ''p'' r)))
      else
        (case mantissa 10 is_digit digit_val s of
           None \<Rightarrow> Finite 0
         | Some (m, r) \<Rightarrow> Finite (scaled m 10 (exponent CHR ''e'' r))))"

definition std_atof :: "string \<Rightarrow> fp" where
  "std_atof s =
     (case dropWhile is_space s of
        [] \<Rightarrow> Finite 0
      | c # rest \<Rightarrow>
          if c = CHR ''-'' then fp_neg (unsigned_number rest)
          else if c = CHR ''+'' then unsigned_number rest
          else unsigned_number (c # rest))"

subsection \<open>The sampler: \<open>on_event\<close>\<close>

definition log_error :: "string \<Rightarrow> battery_module \<Rightarrow> battery_module" where
  "log_error msg m = m\<lparr>error_log := error_log m @ [msg]\<rparr>"

definition log_trace :: "string \<Rightarrow> battery_module \<Rightarrow> battery_module" where
  "log_trace msg m = m\<lparr>trace_log := trace_log m @ [msg]\<rparr>"

text \<open>
  Line 117: the cast to \<open>int\<close> binds tighter than the addition, so the capped value is
  truncated first, \<open>0.5\<close> is added to the resulting integer, and the initialisation of
  the \<open>int\<close> truncates the sum again.
\<close>

definition raw_percentage :: "fp \<Rightarrow> int" where
  "raw_percentage parsed =
     float_to_int (Finite (of_int (float_to_int (cap parsed (Finite 0) (Finite 100))) + 1 / 2))"

text \<open>Lines 119 to 122: the switch on the first byte of the status content.\<close>

definition raw_state :: "string \<Rightarrow> charge_state" where
  "raw_state status =
     (case status of
        [] \<Rightarrow> STATE_UNKNOWN
      | c # _ \<Rightarrow>
          if c = CHR ''0'' then STATE_DISCHARGING
          else if c = CHR ''1'' then STATE_CHARGING
          else STATE_UNKNOWN)"

text \<open>Lines 124 to 128: the two normalisation steps, in the order of the source.\<close>

definition normalize :: "int \<Rightarrow> charge_state \<Rightarrow> int \<Rightarrow> charge_state \<times> int" where
  "normalize full_at_cfg state0 percentage0 =
     (let percentage1 =
            (if state0 = STATE_CHARGING \<and> percentage0 \<ge> full_at_cfg then 100 else percentage0);
          state1 = (if percentage1 = 100 then STATE_FULL else state0)
      in (state1, percentage1))"

text \<open>
  Lines 130 to 135: a tokenized label that does not exist yet is cloned from its
  template, which dereferences the template.
\<close>

definition ensure_tokenized :: "label option \<Rightarrow> label option \<Rightarrow> error + label" where
  "ensure_tokenized tokenized template =
     (case tokenized of
        Some t \<Rightarrow> Inr t
      | None \<Rightarrow> (case template of None \<Rightarrow> Inl NullDereference | Some l \<Rightarrow> Inr (clone l)))"

text \<open>
  Lines 137 to 144: the text of the tokenized label is reset from its template, which
  is dereferenced whatever the state, and the token is replaced.
\<close>

definition retokenize :: "label \<Rightarrow> label option \<Rightarrow> int \<Rightarrow> error + label" where
  "retokenize tokenized template percentage1 =
     (case template of
        None \<Rightarrow> Inl NullDereference
      | Some l \<Rightarrow>
          Inr (replace_token ''%percentage%'' (to_string percentage1 @ ''%'')
                 (tokenized\<lparr>label_text := label_text l\<rparr>)))"

text \<open>
  \<open>on_event\<close> takes the optional event (its file name), and the content that
  \<open>io::file::get_contents\<close> returned for the status and the capacity file. It gives
  \<open>Inl NullDereference\<close> where the source dereferences a null pointer, and otherwise the
  returned \<open>bool\<close> with the module after the call.
\<close>

definition on_event ::
  "(string \<Rightarrow> fp) \<Rightarrow> string option \<Rightarrow> string \<Rightarrow> string \<Rightarrow> battery_module
     \<Rightarrow> error + (bool \<times> battery_module)" where
  "on_event atof event status capacity m =
     (let m0 = (case event of None \<Rightarrow> m | Some filename \<Rightarrow> log_trace filename m) in
      if status = [] then
        Inr (False, log_error (''Failed to read '' @ path_status m0) m0)
      else if capacity = [] then
        Inr (False, log_error (''Failed to read '' @ path_capacity m0) m0)
      else
        (case normalize (full_at m0) (raw_state status) (raw_percentage (atof capacity)) of
           (state1, percentage1) \<Rightarrow>
        (case ensure_tokenized (label_charging_tokenized m0) (label_charging m0) of
           Inl e \<Rightarrow> Inl e | Inr ct \<Rightarrow>
        (case ensure_tokenized (label_discharging_tokenized m0) (label_discharging m0) of
           Inl e \<Rightarrow> Inl e | Inr dt \<Rightarrow>
        (case ensure_tokenized (label_full_tokenized m0) (label_full m0) of
           Inl e \<Rightarrow> Inl e | Inr ft \<Rightarrow>
        (case retokenize ct (label_charging m0) percentage1 of
           Inl e \<Rightarrow> Inl e | Inr ct' \<Rightarrow>
        (case retokenize dt (label_discharging m0) percentage1 of
           Inl e \<Rightarrow> Inl e | Inr dt' \<Rightarrow>
        (case retokenize ft (label_full m0) percentage1 of
           Inl e \<Rightarrow> Inl e | Inr ft' \<Rightarrow>
        Inr (True,
             m0\<lparr>label_charging_tokenized := Some ct',
                label_discharging_tokenized := Some dt',
                label_full_tokenized := Some ft',
                state := state1,
                percentage := percentage1\<rparr>)))))))))"

subsection \<open>Format selection: \<open>get_format\<close>\<close>

definition get_format :: "battery_module \<Rightarrow> format" where
  "get_format m =
     (let st = state m in
      if st = STATE_FULL then FORMAT_FULL
      else if st = STATE_CHARGING then FORMAT_CHARGING
      else FORMAT_DISCHARGING)"

subsection \<open>The constructor\<close>

text \<open>
  What the collaborators give the constructor: the configured threshold (the lookup
  has already put 100 where the key is absent), for each tag whether
  \<open>formatter->has\<close> finds it in its format, and the objects that \<open>drawtypes\<close> builds
  for the tags that are present.
\<close>

record construction =
  conf_path_capacity :: string
  conf_path_status :: string
  conf_full_at :: int
  has_animation_charging :: bool
  has_label_charging :: bool
  has_label_discharging :: bool
  has_label_full :: bool
  conf_animation_charging :: animation
  conf_label_charging :: label
  conf_label_discharging :: label
  conf_label_full :: label

text \<open>
  Lines 19 to 61. A pointer member is null unless its tag is in the format. The thread
  of \<open>animation_thread_runner\<close> is started when \<open>animation_charging\<close> is not null.
\<close>

definition BatteryModule :: "construction \<Rightarrow> battery_module" where
  "BatteryModule c =
     \<lparr>path_capacity = conf_path_capacity c,
      path_status = conf_path_status c,
      full_at = conf_full_at c,
      state = STATE_UNKNOWN,
      percentage = 0,
      animation_charging =
        (if has_animation_charging c then Some (conf_animation_charging c) else None),
      label_charging = (if has_label_charging c then Some (conf_label_charging c) else None),
      label_discharging =
        (if has_label_discharging c then Some (conf_label_discharging c) else None),
      label_full = (if has_label_full c then Some (conf_label_full c) else None),
      label_charging_tokenized = None,
      label_discharging_tokenized = None,
      label_full_tokenized = None,
      error_log = [],
      trace_log = []\<rparr>"

definition starts_animation_thread :: "battery_module \<Rightarrow> bool" where
  "starts_animation_thread m = (animation_charging m \<noteq> None)"

subsection \<open>The animation thread: \<open>animation_thread_runner\<close>\<close>

text \<open>
  The thread runs beside the sampler, so what it reads is an input of the model: one
  observation for every evaluation of the inner loop's condition, \<open>Disabled\<close> when
  \<open>enabled()\<close> was false, and \<open>Enabled s\<close> when it was true and the read of the state
  in that iteration gave \<open>s\<close>. What the thread does is the list of its events, with
  durations in seconds. A run on a finite list of observations is the execution up to
  the point where the observations end; the flag returned with the events tells whether
  the loop (or the thread) had come to its end by then.
\<close>

datatype observation = Disabled | Enabled charge_state

datatype event =
    Yield
  | Lock
  | Unlock
  | Read_state charge_state
  | Broadcast
  | Log_trace string
  | Sleep_for rat

text \<open>Lines 67 and 68.\<close>

definition frame_duration :: "animation \<Rightarrow> rat" where
  "frame_duration a = of_int (framerate a) / 1000"

text \<open>
  One pass of the body of the inner loop, lines 75 to 87, and the release of the lock
  when \<open>lck\<close> goes out of scope still holding it. The result is the new value of
  \<open>retries\<close> and the events of the pass.
\<close>

definition inner_body :: "rat \<Rightarrow> int \<Rightarrow> charge_state \<Rightarrow> int \<times> event list" where
  "inner_body dur retries s =
     (let retries1 = (if retries > 0 then 0 else retries) in
      if s = STATE_CHARGING
      then (retries1, [Lock, Read_state s, Unlock, Broadcast, Sleep_for dur])
      else (retries1, [Lock, Read_state s, Log_trace ''state != charging'', Sleep_for dur, Unlock]))"

text \<open>
  The inner loop, lines 74 to 88: the value of \<open>retries\<close> at the end, the observations
  left, the events, and whether the loop was left.
\<close>

fun inner_loop ::
  "rat \<Rightarrow> int \<Rightarrow> observation list \<Rightarrow> int \<times> observation list \<times> event list \<times> bool" where
  "inner_loop dur retries [] = (retries, [], [], False)"
| "inner_loop dur retries (Disabled # obs) = (retries, obs, [], True)"
| "inner_loop dur retries (Enabled s # obs) =
     (case inner_body dur retries s of
        (retries1, evs) \<Rightarrow>
          (case inner_loop dur retries1 obs of
             (retries2, rest, evs2, left) \<Rightarrow> (retries2, rest, evs @ evs2, left)))"

lemma inner_loop_retries:
  "inner_loop dur retries obs = (retries2, rest, evs, left) \<Longrightarrow> retries2 \<le> max retries 0"
proof (induction obs arbitrary: retries retries2 rest evs left)
  case Nil
  then show ?case by simp
next
  case (Cons ob obs)
  show ?case
  proof (cases ob)
    case Disabled
    with Cons.prems show ?thesis by simp
  next
    case (Enabled s)
    obtain r3 rest3 evs3 left3
      where rec: "inner_loop dur (if retries > 0 then 0 else retries) obs = (r3, rest3, evs3, left3)"
      by (metis prod_cases4)
    from Cons.prems Enabled rec have "retries2 = r3"
      by (simp add: inner_body_def split: if_splits)
    moreover from Cons.IH [OF rec] have "r3 \<le> max (if retries > 0 then 0 else retries) 0" .
    ultimately show ?thesis by (simp split: if_splits)
  qed
qed

text \<open>
  The outer loop, lines 72 to 91: \<open>retries-- > 0\<close> tests the counter and then
  decrements it; after the inner loop the thread sleeps for 500 ms.
\<close>

function outer_loop :: "rat \<Rightarrow> int \<Rightarrow> observation list \<Rightarrow> event list \<times> bool" where
  "outer_loop dur retries obs =
     (if retries > 0 then
        (case inner_loop dur (retries - 1) obs of
           (retries2, rest, evs, left) \<Rightarrow>
             if left then
               (case outer_loop dur retries2 rest of
                  (evs2, finished) \<Rightarrow> (evs @ Sleep_for (1 / 2) # evs2, finished))
             else (evs, False))
      else ([], True))"
  by pat_completeness auto
termination
  by (relation "measure (\<lambda>(dur, retries, obs). nat retries)")
     (auto dest!: sym [of _ "inner_loop _ _ _"] dest!: inner_loop_retries)

declare outer_loop.simps [simp del]

text \<open>
  The thread, lines 63 to 92. It dereferences \<open>animation_charging\<close> for the frame rate.
\<close>

definition animation_thread_runner ::
  "battery_module \<Rightarrow> observation list \<Rightarrow> error + (event list \<times> bool)" where
  "animation_thread_runner m obs =
     (case animation_charging m of
        None \<Rightarrow> Inl NullDereference
      | Some a \<Rightarrow>
          (case outer_loop (frame_duration a) 5 obs of
             (evs, finished) \<Rightarrow> Inr (Yield # evs, finished)))"

subsection \<open>Auxiliary definitions\<close>

text \<open>The tokenized copy of a template at a percentage: what lines 137 to 144 leave.\<close>

definition tokenized_from :: "label \<Rightarrow> int \<Rightarrow> label" where
  "tokenized_from l p =
     \<lparr>label_text = replace_all (label_text l) ''%percentage%'' (to_string p @ ''%'')\<rparr>"

text \<open>The value a call returned and the module it left, when it came back at all.\<close>

definition returned :: "error + (bool \<times> battery_module) \<Rightarrow> bool option" where
  "returned r = (case r of Inl e \<Rightarrow> None | Inr (ok, m) \<Rightarrow> Some ok)"

definition module_after :: "error + (bool \<times> battery_module) \<Rightarrow> battery_module option" where
  "module_after r = (case r of Inl e \<Rightarrow> None | Inr (ok, m) \<Rightarrow> Some m)"

text \<open>
  The rounding that the specification describes, round-half-up, to compare with
  \<open>raw_percentage\<close>.
\<close>

definition round_half_up :: "rat \<Rightarrow> int" where
  "round_half_up x = \<lfloor>x + 1 / 2\<rfloor>"

text \<open>
  A module as a default configuration builds it: every tag present, every label with
  the text \<open>%percentage%\<close>, the threshold at 100, a frame rate value of 500.
\<close>

definition example_construction :: construction where
  "example_construction =
     \<lparr>conf_path_capacity = ''/sys/class/power_supply/BAT0/capacity'',
      conf_path_status = ''/sys/class/power_supply/ADP1/online'',
      conf_full_at = 100,
      has_animation_charging = True,
      has_label_charging = True,
      has_label_discharging = True,
      has_label_full = True,
      conf_animation_charging = \<lparr>framerate = 500\<rparr>,
      conf_label_charging = \<lparr>label_text = ''%percentage%''\<rparr>,
      conf_label_discharging = \<lparr>label_text = ''%percentage%''\<rparr>,
      conf_label_full = \<lparr>label_text = ''%percentage%''\<rparr>\<rparr>"

definition example_module :: battery_module where
  "example_module = BatteryModule example_construction"

text \<open>
  Two properties of a list of events, used as invariants of the loops: every
  broadcast comes right after a read of \<open>STATE_CHARGING\<close> under the lock and the
  release of the lock; and every broadcast or trace message is followed at once by a
  sleep of the given duration.
\<close>

definition broadcasts_guarded :: "event list \<Rightarrow> bool" where
  "broadcasts_guarded evs =
     (\<forall>pre post. evs = pre @ Broadcast # post \<longrightarrow>
        (\<exists>pre'. pre = pre' @ [Lock, Read_state STATE_CHARGING, Unlock]))"

definition ticks_sleep :: "rat \<Rightarrow> event list \<Rightarrow> bool" where
  "ticks_sleep dur evs =
     (\<forall>pre e post. evs = pre @ e # post \<longrightarrow> (e = Broadcast \<or> (\<exists>msg. e = Log_trace msg)) \<longrightarrow>
        (\<exists>post'. post = Sleep_for dur # post'))"

section \<open>Properties of the sampler\<close>

subsection \<open>The percentage of line 117\<close>

lemma floor_of_int_half: "\<lfloor>of_int n + (1 / 2 :: rat)\<rfloor> = n"
  by (rule floor_unique) simp_all

lemma cap_Finite: "cap (Finite v) (Finite 0) (Finite 100) = Finite (max 0 (min 100 v))"
  by (simp add: cap_def fp_less_def)

lemma cap_others:
  "cap PInf (Finite 0) (Finite 100) = Finite 100"
  "cap MInf (Finite 0) (Finite 100) = Finite 0"
  "cap NaN (Finite 0) (Finite 100) = NaN"
  by (simp_all add: cap_def fp_less_def)

lemma float_to_int_percent:
  assumes "0 \<le> x" and "x \<le> 101"
  shows "float_to_int (Finite x) = \<lfloor>x\<rfloor>"
proof -
  from assms have "0 \<le> \<lfloor>x\<rfloor>" and "\<lfloor>x\<rfloor> \<le> 101"
    by (simp_all add: floor_le_iff)
  with assms(1) show ?thesis
    by (simp add: float_to_int_def toward_zero_def INT_MIN_def INT_MAX_def)
qed

text \<open>
  The added \<open>0.5\<close> is lost: for a number the percentage is the capped value rounded
  down. An infinity is capped, and NaN is not.
\<close>

lemma raw_percentage_floor: "raw_percentage (Finite v) = \<lfloor>max 0 (min 100 v)\<rfloor>"
proof -
  let ?c = "max 0 (min 100 v)"
  have c: "0 \<le> ?c" "?c \<le> 100"
    by simp_all
  then have f: "0 \<le> \<lfloor>?c\<rfloor>" "\<lfloor>?c\<rfloor> \<le> 100"
    by (simp_all add: floor_le_iff)
  have 1: "float_to_int (Finite ?c) = \<lfloor>?c\<rfloor>"
    using c by (intro float_to_int_percent) simp_all
  from f(2) have "rat_of_int \<lfloor>?c\<rfloor> \<le> of_int 100"
    by (simp only: of_int_le_iff)
  then have hi: "rat_of_int \<lfloor>?c\<rfloor> \<le> 100"
    by (simp only: of_int_numeral)
  from f(1) have lo: "0 \<le> rat_of_int \<lfloor>?c\<rfloor>"
    by (simp only: of_int_0_le_iff)
  from lo hi have g: "(0 :: rat) \<le> of_int \<lfloor>?c\<rfloor> + 1 / 2"
    "of_int \<lfloor>?c\<rfloor> + 1 / 2 \<le> (101 :: rat)"
    by linarith+
  have "float_to_int (Finite (of_int \<lfloor>?c\<rfloor> + 1 / 2)) = \<lfloor>of_int \<lfloor>?c\<rfloor> + (1 / 2 :: rat)\<rfloor>"
    using g by (rule float_to_int_percent)
  then have 2: "float_to_int (Finite (of_int \<lfloor>?c\<rfloor> + 1 / 2)) = \<lfloor>?c\<rfloor>"
    by (simp only: floor_of_int_half)
  show ?thesis
    by (simp only: raw_percentage_def cap_Finite 1 2)
qed

lemma raw_percentage_PInf: "raw_percentage PInf = 100"
  using raw_percentage_floor [of 100] by (simp add: raw_percentage_def cap_others cap_Finite)

lemma raw_percentage_MInf: "raw_percentage MInf = 0"
  using raw_percentage_floor [of 0] by (simp add: raw_percentage_def cap_others cap_Finite)

lemma raw_percentage_NaN: "raw_percentage NaN = - 2147483647"
  by code_simp

lemma raw_percentage_range:
  assumes "v \<noteq> NaN"
  shows "0 \<le> raw_percentage v \<and> raw_percentage v \<le> 100"
proof (cases v)
  case (Finite x)
  have "0 \<le> max 0 (min 100 x)" and "max 0 (min 100 x) \<le> 100"
    by simp_all
  then have "0 \<le> \<lfloor>max 0 (min 100 x)\<rfloor>" and "\<lfloor>max 0 (min 100 x)\<rfloor> \<le> 100"
    by (simp_all add: floor_le_iff)
  with Finite show ?thesis
    by (simp add: raw_percentage_floor)
qed (use assms in \<open>simp_all add: raw_percentage_PInf raw_percentage_MInf\<close>)

lemma raw_percentage_mono:
  assumes "fp_le v w"
  shows "raw_percentage v \<le> raw_percentage w"
proof -
  from assms have v: "v \<noteq> NaN" and w: "w \<noteq> NaN"
    by (auto simp: fp_le_def fp_less_def split: fp.splits)
  note rv = raw_percentage_range [OF v] and rw = raw_percentage_range [OF w]
  show ?thesis
  proof (cases v)
    case vF: (Finite x)
    show ?thesis
    proof (cases w)
      case wF: (Finite y)
      with vF assms have "x \<le> y"
        by (auto simp: fp_le_def fp_less_def)
      then have "\<lfloor>max 0 (min 100 x)\<rfloor> \<le> \<lfloor>max 0 (min 100 y)\<rfloor>"
        by (intro floor_mono) (simp add: max.coboundedI2 min.coboundedI2)
      with vF wF show ?thesis
        by (simp add: raw_percentage_floor)
    next
      case PInf
      with rv show ?thesis by (simp add: raw_percentage_PInf)
    next
      case MInf
      with vF assms show ?thesis by (simp add: fp_le_def fp_less_def)
    next
      case NaN
      with w show ?thesis by simp
    qed
  next
    case PInf
    with assms have "w = PInf"
      by (auto simp: fp_le_def fp_less_def split: fp.splits)
    with PInf show ?thesis by simp
  next
    case MInf
    with rw show ?thesis by (simp add: raw_percentage_MInf)
  next
    case NaN
    with v show ?thesis by simp
  qed
qed

lemma raw_percentage_of_int:
  "0 \<le> n \<Longrightarrow> n \<le> 100 \<Longrightarrow> raw_percentage (Finite (of_int n)) = n"
  by (simp add: raw_percentage_floor)

lemma raw_percentage_99_5: "raw_percentage (Finite (199 / 2)) = 99"
  unfolding raw_percentage_floor
  by (rule floor_unique) simp_all

lemma raw_percentage_99_6: "raw_percentage (Finite (498 / 5)) = 99"
  unfolding raw_percentage_floor
  by (rule floor_unique) simp_all

lemma std_atof_99_5: "std_atof ''99.5'' = Finite (199 / 2)"
  by code_simp

lemma std_atof_99_6: "std_atof ''99.6'' = Finite (498 / 5)"
  by code_simp

lemma std_atof_100: "std_atof ''100'' = Finite 100"
  by code_simp

lemma std_atof_96: "std_atof ''96'' = Finite 96"
  by code_simp

lemma std_atof_87: "std_atof ''87'' = Finite 87"
  by code_simp

lemma std_atof_nan: "std_atof ''nan'' = NaN"
  by code_simp

subsection \<open>The three ways a call ends\<close>

lemma ensure_retokenize:
  "template = Some l \<Longrightarrow>
   \<exists>t. ensure_tokenized tokenized template = Inr t \<and>
       retokenize t template p = Inr (tokenized_from l p)"
  by (cases tokenized)
    (simp_all add: ensure_tokenized_def retokenize_def replace_token_def tokenized_from_def
       clone_def)

lemma on_event_empty:
  assumes "status = [] \<or> capacity = []"
  shows "\<exists>m'. on_event atof event status capacity m = Inr (False, m') \<and>
           state m' = state m \<and> percentage m' = percentage m \<and>
           label_charging_tokenized m' = label_charging_tokenized m \<and>
           label_discharging_tokenized m' = label_discharging_tokenized m \<and>
           label_full_tokenized m' = label_full_tokenized m \<and>
           error_log m' = error_log m @
             [''Failed to read '' @ (if status = [] then path_status m else path_capacity m)]"
  using assms by (cases event) (auto simp: on_event_def Let_def log_error_def log_trace_def)

lemma on_event_null:
  "status \<noteq> [] \<Longrightarrow> capacity \<noteq> [] \<Longrightarrow>
   label_charging m = None \<or> label_discharging m = None \<or> label_full m = None \<Longrightarrow>
   on_event atof event status capacity m = Inl NullDereference"
  by (cases event)
    (auto simp: on_event_def Let_def log_trace_def ensure_tokenized_def retokenize_def
       split: prod.splits sum.splits option.splits)

lemma on_event_sample:
  assumes "status \<noteq> []" "capacity \<noteq> []"
    and "label_charging m = Some lc" "label_discharging m = Some ld" "label_full m = Some lf"
    and "normalize (full_at m) (raw_state status) (raw_percentage (atof capacity)) = (s1, p1)"
  shows "on_event atof event status capacity m =
    Inr (True, (case event of None \<Rightarrow> m | Some f \<Rightarrow> log_trace f m)
      \<lparr>label_charging_tokenized := Some (tokenized_from lc p1),
       label_discharging_tokenized := Some (tokenized_from ld p1),
       label_full_tokenized := Some (tokenized_from lf p1),
       state := s1, percentage := p1\<rparr>)"
proof -
  let ?m0 = "case event of None \<Rightarrow> m | Some f \<Rightarrow> log_trace f m"
  have m0: "label_charging ?m0 = Some lc" "label_discharging ?m0 = Some ld"
    "label_full ?m0 = Some lf" "full_at ?m0 = full_at m"
    using assms by (simp_all add: log_trace_def split: option.splits)
  obtain ct where ct:
    "ensure_tokenized (label_charging_tokenized ?m0) (label_charging ?m0) = Inr ct"
    "retokenize ct (label_charging ?m0) p1 = Inr (tokenized_from lc p1)"
    using ensure_retokenize [OF m0(1)] by blast
  obtain dt where dt:
    "ensure_tokenized (label_discharging_tokenized ?m0) (label_discharging ?m0) = Inr dt"
    "retokenize dt (label_discharging ?m0) p1 = Inr (tokenized_from ld p1)"
    using ensure_retokenize [OF m0(2)] by blast
  obtain ft where ft:
    "ensure_tokenized (label_full_tokenized ?m0) (label_full ?m0) = Inr ft"
    "retokenize ft (label_full ?m0) p1 = Inr (tokenized_from lf p1)"
    using ensure_retokenize [OF m0(3)] by blast
  show ?thesis
    unfolding on_event_def Let_def
    using assms(1,2,6) ct dt ft m0(4) by simp
qed

lemma on_event_cases:
  "(status = [] \<or> capacity = []) \<and>
     (\<exists>m'. on_event atof event status capacity m = Inr (False, m')) \<or>
   status \<noteq> [] \<and> capacity \<noteq> [] \<and>
     (label_charging m = None \<or> label_discharging m = None \<or> label_full m = None) \<and>
     on_event atof event status capacity m = Inl NullDereference \<or>
   status \<noteq> [] \<and> capacity \<noteq> [] \<and>
     (\<exists>lc ld lf. label_charging m = Some lc \<and> label_discharging m = Some ld \<and>
        label_full m = Some lf) \<and>
     (\<exists>m'. on_event atof event status capacity m = Inr (True, m'))"
proof (cases "status = [] \<or> capacity = []")
  case True
  then show ?thesis
    using on_event_empty [OF True, of atof event m] by blast
next
  case ne: False
  show ?thesis
  proof (cases "label_charging m = None \<or> label_discharging m = None \<or> label_full m = None")
    case True
    with ne on_event_null show ?thesis
      by blast
  next
    case False
    then obtain lc ld lf where l: "label_charging m = Some lc"
      "label_discharging m = Some ld" "label_full m = Some lf"
      by auto
    obtain s1 p1 where
      "normalize (full_at m) (raw_state status) (raw_percentage (atof capacity)) = (s1, p1)"
      by fastforce
    with on_event_sample [of status capacity m lc ld lf atof s1 p1 event] ne l show ?thesis
      by auto
  qed
qed

lemma on_event_True:
  assumes "on_event atof event status capacity m = Inr (True, m')"
  shows "status \<noteq> []" and "capacity \<noteq> []"
    and "\<exists>lc ld lf. label_charging m = Some lc \<and> label_discharging m = Some ld \<and>
           label_full m = Some lf"
  using on_event_cases [of status capacity atof event m] assms by auto

lemma on_event_False:
  assumes "on_event atof event status capacity m = Inr (False, m')"
  shows "status = [] \<or> capacity = []"
  using on_event_cases [of status capacity atof event m] assms by auto

lemma on_event_published:
  assumes "on_event atof event status capacity m = Inr (True, m')"
  shows "(state m', percentage m') =
    normalize (full_at m) (raw_state status) (raw_percentage (atof capacity))"
proof -
  from on_event_True [OF assms] obtain lc ld lf where l: "status \<noteq> []" "capacity \<noteq> []"
    "label_charging m = Some lc" "label_discharging m = Some ld" "label_full m = Some lf"
    by auto
  obtain s1 p1 where
    n: "normalize (full_at m) (raw_state status) (raw_percentage (atof capacity)) = (s1, p1)"
    by fastforce
  from on_event_sample [of status capacity m lc ld lf atof s1 p1 event] l assms n
  show ?thesis
    by (cases event) auto
qed

lemma on_event_normalized:
  assumes "on_event atof event status capacity m = Inr (True, m')"
  shows "percentage m' =
           (if raw_state status = STATE_CHARGING \<and> full_at m \<le> raw_percentage (atof capacity)
            then 100 else raw_percentage (atof capacity))"
    and "state m' = (if percentage m' = 100 then STATE_FULL else raw_state status)"
  using on_event_published [OF assms] by (simp_all add: normalize_def Let_def)

lemma on_event_tokenized:
  assumes "on_event atof event status capacity m = Inr (True, m')"
  shows "label_charging_tokenized m' =
           map_option (\<lambda>l. tokenized_from l (percentage m')) (label_charging m)"
    and "label_discharging_tokenized m' =
           map_option (\<lambda>l. tokenized_from l (percentage m')) (label_discharging m)"
    and "label_full_tokenized m' =
           map_option (\<lambda>l. tokenized_from l (percentage m')) (label_full m)"
proof -
  from on_event_True [OF assms] obtain lc ld lf where l: "status \<noteq> []" "capacity \<noteq> []"
    "label_charging m = Some lc" "label_discharging m = Some ld" "label_full m = Some lf"
    by auto
  obtain s1 p1 where
    n: "normalize (full_at m) (raw_state status) (raw_percentage (atof capacity)) = (s1, p1)"
    by fastforce
  from on_event_sample [of status capacity m lc ld lf atof s1 p1 event] l assms n
  have m': "m' = (case event of None \<Rightarrow> m | Some f \<Rightarrow> log_trace f m)
      \<lparr>label_charging_tokenized := Some (tokenized_from lc p1),
       label_discharging_tokenized := Some (tokenized_from ld p1),
       label_full_tokenized := Some (tokenized_from lf p1),
       state := s1, percentage := p1\<rparr>"
    by simp
  show "label_charging_tokenized m' =
           map_option (\<lambda>l. tokenized_from l (percentage m')) (label_charging m)"
    and "label_discharging_tokenized m' =
           map_option (\<lambda>l. tokenized_from l (percentage m')) (label_discharging m)"
    and "label_full_tokenized m' =
           map_option (\<lambda>l. tokenized_from l (percentage m')) (label_full m)"
    using l by (simp_all add: m')
qed

lemma tokenized_87:
  "tokenized_from \<lparr>label_text = ''%percentage%''\<rparr> 87 = \<lparr>label_text = ''87%''\<rparr>"
  by code_simp

lemma digit_chars:
  "digit_char 0 = CHR ''0''" "digit_char 1 = CHR ''1''" "digit_char 2 = CHR ''2''"
  "digit_char 3 = CHR ''3''" "digit_char 4 = CHR ''4''" "digit_char 5 = CHR ''5''"
  "digit_char 6 = CHR ''6''" "digit_char 7 = CHR ''7''" "digit_char 8 = CHR ''8''"
  "digit_char 9 = CHR ''9''" "digit_char (Suc 0) = CHR ''1''"
  by code_simp+

lemma tokenized_nan:
  "tokenized_from \<lparr>label_text = ''%percentage%''\<rparr> (- 2147483647) =
     \<lparr>label_text = ''-2147483647%''\<rparr>"
  by (simp add: tokenized_from_def to_string_def digit_chars)

lemma constructed_labels:
  assumes "has_label_charging c" and "has_label_discharging c" and "has_label_full c"
  shows "label_charging (BatteryModule c) = Some (conf_label_charging c)"
    and "label_discharging (BatteryModule c) = Some (conf_label_discharging c)"
    and "label_full (BatteryModule c) = Some (conf_label_full c)"
  using assms by (simp_all add: BatteryModule_def)

lemma constructed_success:
  assumes "has_label_charging c" and "has_label_discharging c" and "has_label_full c"
    and "status \<noteq> []" and "capacity \<noteq> []"
  shows "\<exists>m'. on_event atof event status capacity (BatteryModule c) = Inr (True, m')"
  using on_event_cases [of status capacity atof event "BatteryModule c"]
    constructed_labels [OF assms(1-3)] assms(4,5)
  by auto

lemma example_success:
  "status \<noteq> [] \<Longrightarrow> capacity \<noteq> [] \<Longrightarrow>
   \<exists>m'. on_event atof event status capacity example_module = Inr (True, m')"
  unfolding example_module_def
  by (rule constructed_success) (simp_all add: example_construction_def)

lemma example_full_at: "full_at example_module = 100"
  by (simp add: example_module_def example_construction_def BatteryModule_def)

lemma example_label_charging:
  "label_charging example_module = Some \<lparr>label_text = ''%percentage%''\<rparr>"
  by (simp add: example_module_def example_construction_def BatteryModule_def)

lemma example_label_discharging:
  "label_discharging example_module = Some \<lparr>label_text = ''%percentage%''\<rparr>"
  by (simp add: example_module_def example_construction_def BatteryModule_def)

subsection \<open>Claims about the sampler\<close>

text \<open>
  C1. The claim: the published percentage is the parsed capacity clamped into
  \<open>[0, 100]\<close> and rounded half up, so that 99.6 gives 100. At line 117 the cast is
  applied before \<open>0.5\<close> is added, and the percentage is the clamped value rounded down:
  with the status \<open>0\<close> and the capacity \<open>99.5\<close>, and likewise \<open>99.6\<close>, the call
  succeeds and publishes 99 with the state \<open>STATE_DISCHARGING\<close>, where rounding half up
  gives 100.
\<close>

theorem on_event_rounds_down:
  "returned (on_event std_atof None ''0'' ''99.5'' example_module) = Some True \<and>
   map_option percentage (module_after (on_event std_atof None ''0'' ''99.5'' example_module))
     = Some 99 \<and>
   map_option state (module_after (on_event std_atof None ''0'' ''99.5'' example_module))
     = Some STATE_DISCHARGING \<and>
   cap (std_atof ''99.5'') (Finite 0) (Finite 100) = Finite (199 / 2) \<and>
   round_half_up (199 / 2) = 100 \<and>
   map_option percentage (module_after (on_event std_atof None ''0'' ''99.6'' example_module))
     = Some 99 \<and>
   cap (std_atof ''99.6'') (Finite 0) (Finite 100) = Finite (498 / 5) \<and>
   round_half_up (498 / 5) = 100"
proof -
  obtain m1 where ev1: "on_event std_atof None ''0'' ''99.5'' example_module = Inr (True, m1)"
    using example_success [of "''0''" "''99.5''"] by auto
  obtain m2 where ev2: "on_event std_atof None ''0'' ''99.6'' example_module = Inr (True, m2)"
    using example_success [of "''0''" "''99.6''"] by auto
  from on_event_normalized [OF ev1] have "percentage m1 = 99" and "state m1 = STATE_DISCHARGING"
    by (simp_all add: raw_state_def std_atof_99_5 raw_percentage_99_5)
  moreover from on_event_normalized(1) [OF ev2] have "percentage m2 = 99"
    by (simp add: raw_state_def std_atof_99_6 raw_percentage_99_6)
  moreover have "cap (std_atof ''99.5'') (Finite 0) (Finite 100) = Finite (199 / 2)"
    and "cap (std_atof ''99.6'') (Finite 0) (Finite 100) = Finite (498 / 5)"
    by (simp_all add: std_atof_99_5 std_atof_99_6 cap_Finite)
  moreover have "round_half_up (199 / 2) = 100"
    unfolding round_half_up_def
    by (rule floor_unique) simp_all
  moreover have "round_half_up (498 / 5) = 100"
    unfolding round_half_up_def
    by (rule floor_unique) simp_all
  ultimately show ?thesis
    using ev1 ev2 by (simp add: returned_def module_after_def)
qed

text \<open>
  C2. On every successful call the normalisation runs in this order: a raw state
  \<open>STATE_CHARGING\<close> with a percentage of at least \<open>full_at\<close> forces the percentage to
  100; then a percentage of 100 forces the state to \<open>STATE_FULL\<close>, whatever the status
  byte was, also when it said discharging.
\<close>

theorem on_event_normalization_order:
  assumes "on_event atof event status capacity m = Inr (True, m')"
  shows "percentage m' =
           (if raw_state status = STATE_CHARGING \<and> full_at m \<le> raw_percentage (atof capacity)
            then 100 else raw_percentage (atof capacity)) \<and>
         state m' = (if percentage m' = 100 then STATE_FULL else raw_state status) \<and>
         raw_state status =
           (if hd status = CHR ''0'' then STATE_DISCHARGING
            else if hd status = CHR ''1'' then STATE_CHARGING
            else STATE_UNKNOWN)"
proof -
  from on_event_True(1) [OF assms] have "raw_state status =
      (if hd status = CHR ''0'' then STATE_DISCHARGING
       else if hd status = CHR ''1'' then STATE_CHARGING
       else STATE_UNKNOWN)"
    by (cases status) (simp_all add: raw_state_def)
  with on_event_normalized [OF assms] show ?thesis
    by simp
qed

theorem on_event_normalization_order_witness:
  "map_option state
     (module_after (on_event std_atof None ''1'' ''96''
        (BatteryModule (example_construction\<lparr>conf_full_at := 95\<rparr>)))) = Some STATE_FULL \<and>
   map_option percentage
     (module_after (on_event std_atof None ''1'' ''96''
        (BatteryModule (example_construction\<lparr>conf_full_at := 95\<rparr>)))) = Some 100 \<and>
   map_option state (module_after (on_event std_atof None ''0'' ''100'' example_module))
     = Some STATE_FULL"
proof -
  let ?m = "BatteryModule (example_construction\<lparr>conf_full_at := 95\<rparr>)"
  obtain m1 where ev1: "on_event std_atof None ''1'' ''96'' ?m = Inr (True, m1)"
    using constructed_success [of "example_construction\<lparr>conf_full_at := 95\<rparr>" "''1''" "''96''"]
    by (auto simp: example_construction_def)
  obtain m2 where ev2: "on_event std_atof None ''0'' ''100'' example_module = Inr (True, m2)"
    using example_success [of "''0''" "''100''"] by auto
  have r: "raw_percentage (std_atof ''96'') = 96" "raw_percentage (std_atof ''100'') = 100"
    using raw_percentage_of_int [of 96] raw_percentage_of_int [of 100]
    by (simp_all add: std_atof_96 std_atof_100)
  have f: "full_at ?m = 95"
    by (simp add: BatteryModule_def)
  from on_event_normalization_order [OF ev1] r f
  have "percentage m1 = 100 \<and> state m1 = STATE_FULL"
    by simp
  moreover from on_event_normalization_order [OF ev2] r
  have "state m2 = STATE_FULL"
    by simp
  ultimately show ?thesis
    using ev1 ev2 by (simp add: module_after_def)
qed

text \<open>
  C3. A call in which the status content or the capacity content is empty returns
  false, logs one error that names the file, and leaves the state, the percentage and
  the three tokenized labels as they were.
\<close>

theorem on_event_failure_atomic:
  assumes "status = [] \<or> capacity = []"
  shows "\<exists>m'. on_event atof event status capacity m = Inr (False, m') \<and>
           state m' = state m \<and> percentage m' = percentage m \<and>
           label_charging_tokenized m' = label_charging_tokenized m \<and>
           label_discharging_tokenized m' = label_discharging_tokenized m \<and>
           label_full_tokenized m' = label_full_tokenized m \<and>
           error_log m' = error_log m @
             [''Failed to read '' @ (if status = [] then path_status m else path_capacity m)]"
  using assms by (rule on_event_empty)

theorem on_event_failure_atomic_witness:
  "returned (on_event std_atof None [] ''87'' example_module) = Some False \<and>
   map_option state (module_after (on_event std_atof None [] ''87'' example_module))
     = Some STATE_UNKNOWN \<and>
   map_option percentage (module_after (on_event std_atof None [] ''87'' example_module))
     = Some 0 \<and>
   map_option label_charging_tokenized
     (module_after (on_event std_atof None [] ''87'' example_module)) = Some None \<and>
   map_option error_log (module_after (on_event std_atof None [] ''87'' example_module))
     = Some [''Failed to read /sys/class/power_supply/ADP1/online'']"
proof -
  have "[] = ([] :: string) \<or> ''87'' = []"
    by simp
  from on_event_failure_atomic [OF this, of std_atof None example_module]
  show ?thesis
    by (auto simp: returned_def module_after_def example_module_def example_construction_def
          BatteryModule_def)
qed

text \<open>
  With the module and the status content fixed, the percentage that a successful call
  publishes lies in \<open>[0, 100]\<close> for every content that is not read as NaN, and it does
  not decrease when the parsed capacity value grows.
\<close>

lemma on_event_range_monotone_numbers:
  assumes "on_event atof event1 status capacity1 m = Inr (True, m1)"
    and "on_event atof event2 status capacity2 m = Inr (True, m2)"
  shows "(atof capacity1 \<noteq> NaN \<longrightarrow> 0 \<le> percentage m1 \<and> percentage m1 \<le> 100) \<and>
         (fp_le (atof capacity1) (atof capacity2) \<longrightarrow> percentage m1 \<le> percentage m2)"
proof -
  have "0 \<le> percentage m1 \<and> percentage m1 \<le> 100" if "atof capacity1 \<noteq> NaN"
    using on_event_normalized(1) [OF assms(1)] raw_percentage_range [OF that]
    by (auto split: if_splits)
  moreover have "percentage m1 \<le> percentage m2" if le: "fp_le (atof capacity1) (atof capacity2)"
  proof -
    from le have "atof capacity2 \<noteq> NaN"
      by (auto simp: fp_le_def fp_less_def split: fp.splits)
    from on_event_normalized(1) [OF assms(1)] on_event_normalized(1) [OF assms(2)]
      raw_percentage_range [OF this] raw_percentage_mono [OF le]
    show ?thesis
      by (auto split: if_splits)
  qed
  ultimately show ?thesis
    by blast
qed

text \<open>
  C7. The claim: for every capacity content the percentage that a successful call
  publishes lies in \<open>[0, 100]\<close> and is monotonic in the parsed value. The content
  \<open>nan\<close> is read as NaN; both comparisons of the clamp are false for it, the conversion
  to \<open>int\<close> gives the most negative \<open>int\<close>, \<open>0.5\<close> is added and the sum is truncated:
  with the status \<open>0\<close> the call succeeds and publishes the percentage -2147483647,
  with the label text \<open>-2147483647%\<close>.
\<close>

theorem on_event_nan_out_of_range:
  "std_atof ''nan'' = NaN \<and>
   cap (std_atof ''nan'') (Finite 0) (Finite 100) = NaN \<and>
   returned (on_event std_atof None ''0'' ''nan'' example_module) = Some True \<and>
   map_option percentage (module_after (on_event std_atof None ''0'' ''nan'' example_module))
     = Some (- 2147483647) \<and>
   map_option state (module_after (on_event std_atof None ''0'' ''nan'' example_module))
     = Some STATE_DISCHARGING \<and>
   map_option label_discharging_tokenized
     (module_after (on_event std_atof None ''0'' ''nan'' example_module))
     = Some (Some \<lparr>label_text = ''-2147483647%''\<rparr>)"
proof -
  obtain m' where ev: "on_event std_atof None ''0'' ''nan'' example_module = Inr (True, m')"
    using example_success [of "''0''" "''nan''"] by auto
  from on_event_normalized [OF ev] have p: "percentage m' = - 2147483647"
    and st: "state m' = STATE_DISCHARGING"
    by (simp_all add: raw_state_def std_atof_nan raw_percentage_NaN)
  from on_event_tokenized(2) [OF ev] p
  have "label_discharging_tokenized m' = Some \<lparr>label_text = ''-2147483647%''\<rparr>"
    by (simp add: example_label_discharging tokenized_nan)
  with p st ev show ?thesis
    by (simp add: returned_def module_after_def std_atof_nan cap_others)
qed

text \<open>
  C8. A second call with the same status and capacity contents returns what the first
  returned and leaves the state, the percentage and the three tokenized labels as the
  first call left them.
\<close>

theorem on_event_idempotent:
  assumes "on_event atof event1 status capacity m = Inr (ok, m1)"
  shows "\<exists>m2. on_event atof event2 status capacity m1 = Inr (ok, m2) \<and>
           state m2 = state m1 \<and> percentage m2 = percentage m1 \<and>
           label_charging_tokenized m2 = label_charging_tokenized m1 \<and>
           label_discharging_tokenized m2 = label_discharging_tokenized m1 \<and>
           label_full_tokenized m2 = label_full_tokenized m1"
proof (cases ok)
  case False
  with assms have "status = [] \<or> capacity = []"
    using on_event_False [of atof event1 status capacity m m1] by simp
  from on_event_empty [OF this, of atof event2 m1] False show ?thesis
    by auto
next
  case True
  with assms have ev: "on_event atof event1 status capacity m = Inr (True, m1)"
    by simp
  from on_event_True [OF ev] obtain lc ld lf where l: "status \<noteq> []" "capacity \<noteq> []"
    "label_charging m = Some lc" "label_discharging m = Some ld" "label_full m = Some lf"
    by auto
  obtain s1 p1 where
    n: "normalize (full_at m) (raw_state status) (raw_percentage (atof capacity)) = (s1, p1)"
    by fastforce
  from on_event_sample [of status capacity m lc ld lf atof s1 p1 event1] l n ev
  have m1: "m1 = (case event1 of None \<Rightarrow> m | Some f \<Rightarrow> log_trace f m)
      \<lparr>label_charging_tokenized := Some (tokenized_from lc p1),
       label_discharging_tokenized := Some (tokenized_from ld p1),
       label_full_tokenized := Some (tokenized_from lf p1),
       state := s1, percentage := p1\<rparr>"
    by simp
  then have l1: "label_charging m1 = Some lc" "label_discharging m1 = Some ld"
    "label_full m1 = Some lf" "full_at m1 = full_at m"
    using l by (cases event1; simp add: log_trace_def)+
  from n l1 have
    n1: "normalize (full_at m1) (raw_state status) (raw_percentage (atof capacity)) = (s1, p1)"
    by simp
  from on_event_sample [of status capacity m1 lc ld lf atof s1 p1 event2] l(1,2) l1(1-3) n1
  have "on_event atof event2 status capacity m1 =
    Inr (True, (case event2 of None \<Rightarrow> m1 | Some f \<Rightarrow> log_trace f m1)
      \<lparr>label_charging_tokenized := Some (tokenized_from lc p1),
       label_discharging_tokenized := Some (tokenized_from ld p1),
       label_full_tokenized := Some (tokenized_from lf p1),
       state := s1, percentage := p1\<rparr>)"
    by simp
  with True m1 show ?thesis
    by (cases event1; cases event2) (simp_all add: log_trace_def)
qed

theorem on_event_idempotent_witness:
  "\<exists>m1 m2. on_event std_atof None ''1'' ''87'' example_module = Inr (True, m1) \<and>
     on_event std_atof None ''1'' ''87'' m1 = Inr (True, m2) \<and>
     state m2 = STATE_CHARGING \<and> percentage m2 = 87 \<and>
     label_charging_tokenized m2 = Some \<lparr>label_text = ''87%''\<rparr> \<and>
     state m2 = state m1 \<and> percentage m2 = percentage m1 \<and>
     label_charging_tokenized m2 = label_charging_tokenized m1 \<and>
     label_discharging_tokenized m2 = label_discharging_tokenized m1 \<and>
     label_full_tokenized m2 = label_full_tokenized m1"
proof -
  obtain m1 where ev1: "on_event std_atof None ''1'' ''87'' example_module = Inr (True, m1)"
    using example_success [of "''1''" "''87''"] by auto
  from on_event_idempotent [OF ev1, of None] obtain m2
    where ev2: "on_event std_atof None ''1'' ''87'' m1 = Inr (True, m2)"
      and same: "state m2 = state m1" "percentage m2 = percentage m1"
        "label_charging_tokenized m2 = label_charging_tokenized m1"
        "label_discharging_tokenized m2 = label_discharging_tokenized m1"
        "label_full_tokenized m2 = label_full_tokenized m1"
    by blast
  from on_event_normalized [OF ev1] have p: "percentage m1 = 87" "state m1 = STATE_CHARGING"
    using raw_percentage_of_int [of 87]
    by (simp_all add: std_atof_87 example_full_at raw_state_def)
  from on_event_tokenized(1) [OF ev1] p(1)
  have "label_charging_tokenized m1 = Some \<lparr>label_text = ''87%''\<rparr>"
    by (simp add: example_label_charging tokenized_87)
  with p ev1 ev2 same show ?thesis
    by auto
qed

text \<open>
  C9, as the claim states it: after a sample whose status content starts with a byte
  other than \<open>0\<close> or \<open>1\<close> the state is \<open>STATE_UNKNOWN\<close> and the format is the
  discharging one. With the status \<open>2\<close> and the capacity \<open>100\<close> the call succeeds, the
  percentage of 100 forces the state to \<open>STATE_FULL\<close>, and the format is the full one.
\<close>

theorem unknown_status_at_100_counterexample:
  "returned (on_event std_atof None ''2'' ''100'' example_module) = Some True \<and>
   map_option state (module_after (on_event std_atof None ''2'' ''100'' example_module))
     = Some STATE_FULL \<and>
   map_option get_format (module_after (on_event std_atof None ''2'' ''100'' example_module))
     = Some FORMAT_FULL \<and>
   STATE_FULL \<noteq> STATE_UNKNOWN \<and> FORMAT_FULL \<noteq> FORMAT_DISCHARGING"
proof -
  obtain m' where ev: "on_event std_atof None ''2'' ''100'' example_module = Inr (True, m')"
    using example_success [of "''2''" "''100''"] by auto
  have "raw_percentage (std_atof ''100'') = 100"
    using raw_percentage_of_int [of 100] by (simp add: std_atof_100)
  with on_event_normalized [OF ev] have "state m' = STATE_FULL"
    by (simp add: raw_state_def)
  with ev show ?thesis
    by (simp add: returned_def module_after_def get_format_def)
qed

text \<open>
  C9, amended. \<open>get_format\<close> is a total function of the state: \<open>STATE_FULL\<close> gives the
  full format, \<open>STATE_CHARGING\<close> the charging format, \<open>STATE_UNKNOWN\<close> and
  \<open>STATE_DISCHARGING\<close> the discharging format. After a successful sample whose status
  content starts with a byte other than \<open>0\<close> or \<open>1\<close>, the state is \<open>STATE_UNKNOWN\<close>
  and the format is the discharging one when the published percentage is not 100; when
  it is 100, the state is \<open>STATE_FULL\<close> and the format is the full one.
\<close>

theorem get_format_total:
  "get_format m =
     (case state m of
        STATE_FULL \<Rightarrow> FORMAT_FULL
      | STATE_CHARGING \<Rightarrow> FORMAT_CHARGING
      | STATE_DISCHARGING \<Rightarrow> FORMAT_DISCHARGING
      | STATE_UNKNOWN \<Rightarrow> FORMAT_DISCHARGING) \<and>
   (on_event atof event status capacity m = Inr (True, m') \<and>
    hd status \<noteq> CHR ''0'' \<and> hd status \<noteq> CHR ''1'' \<longrightarrow>
      (percentage m' \<noteq> 100 \<longrightarrow>
         state m' = STATE_UNKNOWN \<and> get_format m' = FORMAT_DISCHARGING) \<and>
      (percentage m' = 100 \<longrightarrow> state m' = STATE_FULL \<and> get_format m' = FORMAT_FULL))"
proof -
  have fmt: "get_format m =
     (case state m of
        STATE_FULL \<Rightarrow> FORMAT_FULL
      | STATE_CHARGING \<Rightarrow> FORMAT_CHARGING
      | STATE_DISCHARGING \<Rightarrow> FORMAT_DISCHARGING
      | STATE_UNKNOWN \<Rightarrow> FORMAT_DISCHARGING)"
    by (simp add: get_format_def split: charge_state.splits)
  have "(percentage m' \<noteq> 100 \<longrightarrow>
           state m' = STATE_UNKNOWN \<and> get_format m' = FORMAT_DISCHARGING) \<and>
        (percentage m' = 100 \<longrightarrow> state m' = STATE_FULL \<and> get_format m' = FORMAT_FULL)"
    if ev: "on_event atof event status capacity m = Inr (True, m')"
      and b: "hd status \<noteq> CHR ''0''" "hd status \<noteq> CHR ''1''"
  proof -
    from on_event_True(1) [OF ev] b have "raw_state status = STATE_UNKNOWN"
      by (cases status) (simp_all add: raw_state_def)
    with on_event_normalized(2) [OF ev] show ?thesis
      by (simp add: get_format_def)
  qed
  with fmt show ?thesis
    by blast
qed

theorem get_format_total_witness:
  "map_option state (module_after (on_event std_atof None ''2'' ''87'' example_module))
     = Some STATE_UNKNOWN \<and>
   map_option get_format (module_after (on_event std_atof None ''2'' ''87'' example_module))
     = Some FORMAT_DISCHARGING"
proof -
  obtain m' where ev: "on_event std_atof None ''2'' ''87'' example_module = Inr (True, m')"
    using example_success [of "''2''" "''87''"] by auto
  from on_event_normalized(1) [OF ev] have p: "percentage m' = 87"
    using raw_percentage_of_int [of 87]
    by (simp add: std_atof_87 example_full_at raw_state_def)
  from get_format_total [of example_module std_atof None "''2''" "''87''" m'] ev p
  have "state m' = STATE_UNKNOWN \<and> get_format m' = FORMAT_DISCHARGING"
    by simp
  with ev show ?thesis
    by (simp add: module_after_def)
qed

text \<open>
  C10. A call with both contents non-empty dereferences all three label templates,
  whatever the state: it dereferences a null pointer exactly when one of the three is
  null, and it succeeds exactly when none is. The constructor leaves a template null
  when its tag is absent from its format, so that sampling such a module fails on its
  first complete read.
\<close>

theorem on_event_dereferences_all_templates:
  assumes "status \<noteq> []" and "capacity \<noteq> []"
  shows "(on_event atof event status capacity m = Inl NullDereference) =
           (label_charging m = None \<or> label_discharging m = None \<or> label_full m = None) \<and>
         (\<exists>m'. on_event atof event status capacity m = Inr (True, m')) =
           (label_charging m \<noteq> None \<and> label_discharging m \<noteq> None \<and> label_full m \<noteq> None) \<and>
         (\<not> (has_label_charging c \<and> has_label_discharging c \<and> has_label_full c) \<longrightarrow>
            on_event atof event status capacity (BatteryModule c) = Inl NullDereference)"
proof -
  have a: "(on_event atof event status capacity m = Inl NullDereference) =
           (label_charging m = None \<or> label_discharging m = None \<or> label_full m = None)"
    using on_event_cases [of status capacity atof event m] assms by auto
  have b: "(\<exists>m'. on_event atof event status capacity m = Inr (True, m')) =
           (label_charging m \<noteq> None \<and> label_discharging m \<noteq> None \<and> label_full m \<noteq> None)"
    using on_event_cases [of status capacity atof event m] assms by auto
  have c: "\<not> (has_label_charging c \<and> has_label_discharging c \<and> has_label_full c) \<longrightarrow>
            on_event atof event status capacity (BatteryModule c) = Inl NullDereference"
    using on_event_null [of status capacity "BatteryModule c" atof event] assms
    by (auto simp: BatteryModule_def)
  from a b c show ?thesis
    by blast
qed

theorem on_event_dereferences_all_templates_witness:
  "on_event std_atof None ''1'' ''87''
     (BatteryModule (example_construction\<lparr>has_label_full := False\<rparr>)) = Inl NullDereference \<and>
   state (BatteryModule (example_construction\<lparr>has_label_full := False\<rparr>)) = STATE_UNKNOWN \<and>
   returned (on_event std_atof None ''1'' ''87'' example_module) = Some True"
proof -
  have ne: "''1'' \<noteq> ([] :: string)" "''87'' \<noteq> ([] :: string)"
    by simp_all
  from on_event_dereferences_all_templates [OF ne, of std_atof None example_module
      "example_construction\<lparr>has_label_full := False\<rparr>"]
  show ?thesis
    by (auto simp: returned_def example_module_def example_construction_def BatteryModule_def)
qed

section \<open>Properties of the animation thread\<close>

subsection \<open>Invariants of the event lists\<close>

lemma split_occurrence:
  assumes "a @ b = pre @ x # post"
  shows "(\<exists>post_a. a = pre @ x # post_a \<and> post = post_a @ b) \<or>
         (\<exists>pre_b. b = pre_b @ x # post \<and> pre = a @ pre_b)"
  using assms by (auto simp: append_eq_append_conv2 append_eq_Cons_conv Cons_eq_append_conv)

lemma broadcasts_guarded_append:
  assumes "broadcasts_guarded a" and "broadcasts_guarded b"
  shows "broadcasts_guarded (a @ b)"
  unfolding broadcasts_guarded_def
proof (intro allI impI)
  fix pre post
  assume "a @ b = pre @ Broadcast # post"
  from split_occurrence [OF this]
  show "\<exists>pre'. pre = pre' @ [Lock, Read_state STATE_CHARGING, Unlock]"
  proof (elim disjE exE conjE)
    fix post_a assume "a = pre @ Broadcast # post_a"
    with assms(1) show ?thesis by (auto simp: broadcasts_guarded_def)
  next
    fix pre_b assume b: "b = pre_b @ Broadcast # post" and p: "pre = a @ pre_b"
    from assms(2) b obtain pre' where "pre_b = pre' @ [Lock, Read_state STATE_CHARGING, Unlock]"
      by (auto simp: broadcasts_guarded_def)
    with p have "pre = (a @ pre') @ [Lock, Read_state STATE_CHARGING, Unlock]" by simp
    then show ?thesis by blast
  qed
qed

lemma ticks_sleep_append:
  assumes "ticks_sleep dur a" and "ticks_sleep dur b"
  shows "ticks_sleep dur (a @ b)"
  unfolding ticks_sleep_def
proof (intro allI impI)
  fix pre e post
  assume "a @ b = pre @ e # post" and e: "e = Broadcast \<or> (\<exists>msg. e = Log_trace msg)"
  from split_occurrence [OF this(1)]
  show "\<exists>post'. post = Sleep_for dur # post'"
  proof (elim disjE exE conjE)
    fix post_a assume a: "a = pre @ e # post_a" and p: "post = post_a @ b"
    from assms(1) a e obtain post' where "post_a = Sleep_for dur # post'"
      unfolding ticks_sleep_def by blast
    with p show ?thesis by simp
  next
    fix pre_b assume b: "b = pre_b @ e # post"
    with assms(2) e show ?thesis unfolding ticks_sleep_def by blast
  qed
qed

lemma inner_body_guarded:
  "inner_body dur retries s = (retries1, evs) \<Longrightarrow> broadcasts_guarded evs \<and> ticks_sleep dur evs"
  by (auto simp: inner_body_def broadcasts_guarded_def ticks_sleep_def
        append_eq_Cons_conv Cons_eq_append_conv split: if_splits)

lemma inner_body_reads:
  "inner_body dur retries s = (retries1, evs) \<Longrightarrow> Read_state s' \<in> set evs \<Longrightarrow> s' = s"
  by (auto simp: inner_body_def split: if_splits)

lemma nil_guarded: "broadcasts_guarded [] \<and> ticks_sleep dur []"
  by (simp add: broadcasts_guarded_def ticks_sleep_def)

lemma single_guarded:
  "e \<noteq> Broadcast \<Longrightarrow> \<forall>msg. e \<noteq> Log_trace msg \<Longrightarrow> broadcasts_guarded [e] \<and> ticks_sleep dur [e]"
  by (auto simp: broadcasts_guarded_def ticks_sleep_def append_eq_Cons_conv Cons_eq_append_conv)

lemma guarded_Cons:
  assumes "e \<noteq> Broadcast" and "\<forall>msg. e \<noteq> Log_trace msg"
    and "broadcasts_guarded evs" and "ticks_sleep dur evs"
  shows "broadcasts_guarded (e # evs) \<and> ticks_sleep dur (e # evs)"
  using broadcasts_guarded_append [of "[e]" evs] ticks_sleep_append [of dur "[e]" evs]
    single_guarded [of e dur] assms
  by simp

lemma inner_loop_guarded:
  "inner_loop dur retries obs = (retries2, rest, evs, left) \<Longrightarrow>
   broadcasts_guarded evs \<and> ticks_sleep dur evs \<and> (\<forall>s. Read_state s \<in> set evs \<longrightarrow> Enabled s \<in> set obs)"
proof (induction dur retries obs arbitrary: retries2 rest evs left rule: inner_loop.induct)
  case (1 dur retries)
  then show ?case using nil_guarded by simp
next
  case (2 dur retries obs)
  then show ?case using nil_guarded by simp
next
  case (3 dur retries s obs)
  obtain retries1 evs1 where b: "inner_body dur retries s = (retries1, evs1)"
    by fastforce
  obtain r3 rest3 evs3 left3 where r: "inner_loop dur retries1 obs = (r3, rest3, evs3, left3)"
    by (metis prod_cases4)
  from "3.prems" b r have evs: "evs = evs1 @ evs3"
    by simp
  from "3.IH" [OF b [symmetric] r]
  have ih: "broadcasts_guarded evs3" "ticks_sleep dur evs3"
    "\<forall>s. Read_state s \<in> set evs3 \<longrightarrow> Enabled s \<in> set obs"
    by simp_all
  from inner_body_guarded [OF b] ih evs inner_body_reads [OF b]
  show ?case
    by (auto simp: broadcasts_guarded_append ticks_sleep_append)
qed

lemma inner_loop_rest:
  "inner_loop dur retries obs = (retries2, rest, evs, left) \<Longrightarrow> set rest \<subseteq> set obs"
proof (induction dur retries obs arbitrary: retries2 rest evs left rule: inner_loop.induct)
  case (3 dur retries s obs)
  obtain retries1 evs1 where b: "inner_body dur retries s = (retries1, evs1)"
    by fastforce
  obtain r3 rest3 evs3 left3 where r: "inner_loop dur retries1 obs = (r3, rest3, evs3, left3)"
    by (metis prod_cases4)
  from "3.prems" b r have "rest = rest3"
    by simp
  with "3.IH" [OF b [symmetric] r] show ?case
    by auto
qed auto

lemma outer_loop_guarded:
  "outer_loop dur retries obs = (evs, finished) \<Longrightarrow>
   broadcasts_guarded evs \<and> ticks_sleep dur evs \<and> (\<forall>s. Read_state s \<in> set evs \<longrightarrow> Enabled s \<in> set obs)"
proof (induction dur retries obs arbitrary: evs finished rule: outer_loop.induct)
  case (1 dur retries obs)
  show ?case
  proof (cases "retries > 0")
    case False
    with "1.prems" show ?thesis using nil_guarded by (simp add: outer_loop.simps [of dur retries obs])
  next
    case pos: True
    obtain r2 rest evs1 left where i: "inner_loop dur (retries - 1) obs = (r2, rest, evs1, left)"
      by (metis prod_cases4)
    note g1 = inner_loop_guarded [OF i]
    show ?thesis
    proof (cases left)
      case False
      with "1.prems" pos i have "evs = evs1" by (simp add: outer_loop.simps [of dur retries obs])
      with g1 show ?thesis by simp
    next
      case True
      obtain evs2 fin2 where o: "outer_loop dur r2 rest = (evs2, fin2)"
        by fastforce
      from "1.prems" pos i True o have evs: "evs = evs1 @ Sleep_for (1 / 2) # evs2"
        by (simp add: outer_loop.simps [of dur retries obs])
      from "1.IH" [OF pos i [symmetric] refl refl True o]
      have g2: "broadcasts_guarded evs2" "ticks_sleep dur evs2"
        "\<forall>s. Read_state s \<in> set evs2 \<longrightarrow> Enabled s \<in> set rest"
        by simp_all
      have sub: "set rest \<subseteq> set obs"
        using inner_loop_rest [OF i] .
      have g3: "broadcasts_guarded (Sleep_for (1 / 2) # evs2)"
        "ticks_sleep dur (Sleep_for (1 / 2) # evs2)"
        using guarded_Cons [of "Sleep_for (1 / 2)" evs2 dur] g2 by simp_all
      from g1 g2 g3 sub show ?thesis
        unfolding evs
        by (auto intro!: broadcasts_guarded_append ticks_sleep_append)
    qed
  qed
qed


text \<open>A thread that the constructor starts finds its animation and runs.\<close>

lemma runner_returns:
  assumes "starts_animation_thread m"
  shows "\<exists>evs finished. animation_thread_runner m obs = Inr (evs, finished)"
  using assms
  by (auto simp: starts_animation_thread_def animation_thread_runner_def split: prod.splits)

lemma example_animation: "animation_charging example_module = Some \<lparr>framerate = 500\<rparr>"
  by (simp add: example_module_def example_construction_def BatteryModule_def)

lemma example_run_charging:
  "animation_thread_runner example_module [Enabled STATE_CHARGING] =
     Inr ([Yield, Lock, Read_state STATE_CHARGING, Unlock, Broadcast, Sleep_for (1 / 2)], False)"
  by (simp add: animation_thread_runner_def example_animation frame_duration_def inner_body_def
        outer_loop.simps)

lemma example_run_discharging_charging:
  "animation_thread_runner example_module [Enabled STATE_DISCHARGING, Enabled STATE_CHARGING] =
     Inr ([Yield, Lock, Read_state STATE_DISCHARGING, Log_trace ''state != charging'',
           Sleep_for (1 / 2), Unlock,
           Lock, Read_state STATE_CHARGING, Unlock, Broadcast, Sleep_for (1 / 2)], False)"
  by (simp add: animation_thread_runner_def example_animation frame_duration_def inner_body_def
        outer_loop.simps)

subsection \<open>Claims about the animation thread\<close>

text \<open>
  C4. In every execution of the loop, whatever the thread observes, a broadcast is
  issued only right after the thread has taken the lock, read the state as
  \<open>STATE_CHARGING\<close> and released the lock; and every state the thread reads is one of
  its observations. So no broadcast follows a read of \<open>STATE_UNKNOWN\<close>,
  \<open>STATE_DISCHARGING\<close> or \<open>STATE_FULL\<close>.
\<close>

theorem broadcast_only_after_charging_read:
  assumes "animation_thread_runner m obs = Inr (evs, finished)"
  shows "(\<forall>pre post. evs = pre @ Broadcast # post \<longrightarrow>
           (\<exists>pre'. pre = pre' @ [Lock, Read_state STATE_CHARGING, Unlock])) \<and>
         (\<forall>s. Read_state s \<in> set evs \<longrightarrow> Enabled s \<in> set obs)"
proof -
  from assms obtain a evs' where a: "animation_charging m = Some a"
    and o: "outer_loop (frame_duration a) 5 obs = (evs', finished)" and evs: "evs = Yield # evs'"
    by (auto simp: animation_thread_runner_def split: option.splits prod.splits)
  from outer_loop_guarded [OF o] guarded_Cons [of Yield evs' "frame_duration a"]
  have "broadcasts_guarded evs" "\<forall>s. Read_state s \<in> set evs \<longrightarrow> Enabled s \<in> set obs"
    unfolding evs by auto
  then show ?thesis
    by (simp add: broadcasts_guarded_def)
qed

theorem broadcast_only_after_charging_read_witness:
  "animation_thread_runner example_module [Enabled STATE_DISCHARGING, Enabled STATE_CHARGING] =
     Inr ([Yield, Lock, Read_state STATE_DISCHARGING, Log_trace ''state != charging'',
           Sleep_for (1 / 2), Unlock,
           Lock, Read_state STATE_CHARGING, Unlock, Broadcast, Sleep_for (1 / 2)], False) \<and>
   (\<exists>pre'. [Yield, Lock, Read_state STATE_DISCHARGING, Log_trace ''state != charging'',
            Sleep_for (1 / 2), Unlock, Lock, Read_state STATE_CHARGING, Unlock] =
      pre' @ [Lock, Read_state STATE_CHARGING, Unlock])"
proof -
  note run = example_run_discharging_charging
  from broadcast_only_after_charging_read [OF run]
  have "\<forall>pre post.
          [Yield, Lock, Read_state STATE_DISCHARGING, Log_trace ''state != charging'',
           Sleep_for (1 / 2), Unlock,
           Lock, Read_state STATE_CHARGING, Unlock, Broadcast, Sleep_for (1 / 2)] =
          pre @ Broadcast # post \<longrightarrow>
          (\<exists>pre'. pre = pre' @ [Lock, Read_state STATE_CHARGING, Unlock])"
    by blast
  from this [rule_format,
      of "[Yield, Lock, Read_state STATE_DISCHARGING, Log_trace ''state != charging'',
           Sleep_for (1 / 2), Unlock, Lock, Read_state STATE_CHARGING, Unlock]"
         "[Sleep_for (1 / 2)]"]
  have "\<exists>pre'. [Yield, Lock, Read_state STATE_DISCHARGING, Log_trace ''state != charging'',
            Sleep_for (1 / 2), Unlock, Lock, Read_state STATE_CHARGING, Unlock] =
      pre' @ [Lock, Read_state STATE_CHARGING, Unlock]"
    by simp
  with run show ?thesis
    by simp
qed

text \<open>
  C6, as the claim states it: the sleep between two ticks lasts 1000 divided by the
  frame rate value, in seconds. With the frame rate value 500 that is 2 seconds; the
  thread sleeps for half a second after its broadcast.
\<close>

theorem tick_sleep_counterexample:
  "animation_thread_runner example_module [Enabled STATE_CHARGING] =
     Inr ([Yield, Lock, Read_state STATE_CHARGING, Unlock, Broadcast, Sleep_for (1 / 2)], False) \<and>
   map_option framerate (animation_charging example_module) = Some 500 \<and>
   Sleep_for (1 / 2) \<noteq> Sleep_for (1000 / of_int 500)"
  by (simp add: example_run_charging example_animation)

text \<open>
  C6, amended. The sleep between two ticks lasts the frame rate value divided by 1000,
  in seconds (the value counts milliseconds): in every execution each broadcast and each
  trace message of the inner loop is followed at once by a sleep of that duration.
\<close>

theorem tick_sleep_duration:
  assumes "animation_thread_runner m obs = Inr (evs, finished)"
    and "animation_charging m = Some a"
    and "evs = pre @ e # post"
    and "e = Broadcast \<or> e = Log_trace msg"
  shows "\<exists>post'. post = Sleep_for (of_int (framerate a) / 1000) # post'"
proof -
  from assms(1,2) obtain evs' where
    o: "outer_loop (frame_duration a) 5 obs = (evs', finished)" and evs: "evs = Yield # evs'"
    by (auto simp: animation_thread_runner_def split: option.splits prod.splits)
  from outer_loop_guarded [OF o] guarded_Cons [of Yield evs' "frame_duration a"]
  have "ticks_sleep (frame_duration a) evs"
    unfolding evs by auto
  with assms(3,4) show ?thesis
    unfolding ticks_sleep_def frame_duration_def by blast
qed

theorem tick_sleep_duration_witness:
  "animation_thread_runner example_module [Enabled STATE_CHARGING] =
     Inr ([Yield, Lock, Read_state STATE_CHARGING, Unlock] @ Broadcast # [Sleep_for (1 / 2)],
          False) \<and>
   animation_charging example_module = Some \<lparr>framerate = 500\<rparr> \<and>
   (\<exists>post'. [Sleep_for (1 / 2)] = Sleep_for (of_int 500 / 1000) # post')"
proof -
  have run: "animation_thread_runner example_module [Enabled STATE_CHARGING] =
     Inr ([Yield, Lock, Read_state STATE_CHARGING, Unlock] @ Broadcast # [Sleep_for (1 / 2)],
          False)"
    by (simp add: example_run_charging)
  from tick_sleep_duration [OF run example_animation refl, of "[]"]
  have "\<exists>post'. [Sleep_for (1 / 2)] = Sleep_for (of_int 500 / 1000) # post'"
    by simp
  with run example_animation show ?thesis
    by blast
qed

end
